theory Spec2Isabelle
  imports Complex_Main "HOL-Library.Sublist"
begin

section \<open>Strings and the regular expressions of the analyzer\<close>

text \<open>
  Table and column names are Python \<open>str\<close> values. They are modelled as \<^typ>\<open>string\<close>
  and read as ASCII text: on code points below 128, \<open>str.lower\<close> is \<open>py_lower\<close> and the
  regular-expression class \<open>\w\<close> is \<open>is_word_char\<close>. Python floats are modelled as
  reals; on every value the analyzer can compute (a base weight, or a base weight plus
  0.2) the two comparisons the code makes (\<open>min(1.0, _)\<close> and \<open>>= 0.8\<close>) come out the
  same in IEEE doubles and in the reals.
\<close>

definition lower_char :: "char \<Rightarrow> char" where
  "lower_char c =
     (case map_of (zip ''ABCDEFGHIJKLMNOPQRSTUVWXYZ'' ''abcdefghijklmnopqrstuvwxyz'') c of
        Some l \<Rightarrow> l
      | None \<Rightarrow> c)"

definition py_lower :: "string \<Rightarrow> string" where
  "py_lower s = map lower_char s"

definition is_word_char :: "char \<Rightarrow> bool" where
  "is_word_char c \<longleftrightarrow>
     c \<in> set ''abcdefghijklmnopqrstuvwxyzABCDEFGHIJKLMNOPQRSTUVWXYZ0123456789_''"

text \<open>
  Without \<open>re.MULTILINE\<close> the anchor \<open>$\<close> matches at the end of the string and also
  just before a newline that is the last character. \<open>split_final_newline\<close> separates
  that optional final newline from the rest.
\<close>

definition split_final_newline :: "string \<Rightarrow> string \<times> string" where
  "split_final_newline s =
     (if s \<noteq> [] \<and> last s = CHR 0x0A then (butlast s, [CHR 0x0A]) else (s, []))"

text \<open>\<open>re.sub(r'^(dim_|tb_|tbl_|tab_|fact_|fato_)', '', s)\<close>: the first alternative
  that is a prefix of \<open>s\<close> is removed, once.\<close>

definition table_prefixes :: "string list" where
  "table_prefixes = [''dim_'', ''tb_'', ''tbl_'', ''tab_'', ''fact_'', ''fato_'']"

definition strip_table_prefix :: "string \<Rightarrow> string" where
  "strip_table_prefix s =
     (case find (\<lambda>p. prefix p s) table_prefixes of
        Some p \<Rightarrow> drop (length p) s
      | None \<Rightarrow> s)"

text \<open>\<open>re.sub(r'(s|es|is)$', '', s)\<close>: the leftmost match is replaced, so a two-letter
  suffix \<open>es\<close> or \<open>is\<close> goes before a lone \<open>s\<close>; one match only, since
  the pattern is anchored at the end.\<close>

definition strip_plural_suffix :: "string \<Rightarrow> string" where
  "strip_plural_suffix s =
     (let (body, nl) = split_final_newline s in
        (if suffix ''es'' body \<or> suffix ''is'' body then take (length body - 2) body
         else if suffix ''s'' body then butlast body
         else body) @ nl)"

definition normalize_table_name :: "string \<Rightarrow> string" where
  "normalize_table_name nm =
     filter (\<lambda>c. c \<noteq> CHR ''_'') (strip_plural_suffix (strip_table_prefix (py_lower nm)))"

definition strip_vowels :: "string \<Rightarrow> string" where
  "strip_vowels s = filter (\<lambda>c. c \<notin> set ''aeiou'') s"

text \<open>The set built by \<open>_get_all_table_variations\<close>, and the same four strings in
  the order they are added. Python iterates a set in an order of its own; nothing
  below depends on which order is taken, \<open>variations_iter\<close> fixes one enumeration.\<close>

definition get_all_table_variations :: "string \<Rightarrow> string set" where
  "get_all_table_variations table_name =
     (let base_name = normalize_table_name table_name in
        {base_name, base_name @ ''s'', base_name @ ''es'', strip_vowels base_name})"

definition variations_iter :: "string \<Rightarrow> string list" where
  "variations_iter table_name =
     (let base_name = normalize_table_name table_name in
        remdups [base_name, base_name @ ''s'', base_name @ ''es'', strip_vowels base_name])"

text \<open>\<open>(\w+)$\<close> from the current position: the rest of the string is a non-empty run
  of word characters, with an optional final newline that is not captured.\<close>

definition capture_word_end :: "string \<Rightarrow> string option" where
  "capture_word_end r =
     (let (body, nl) = split_final_newline r in
        if body \<noteq> [] \<and> list_all is_word_char body then Some body else None)"

text \<open>\<open>^(?:p1|p2)(\w+)$\<close> with \<open>re.IGNORECASE\<close>: the alternatives are tried in
  order, and a later one is tried when the rest fails after an earlier one.\<close>

fun match_prefixed :: "string list \<Rightarrow> string \<Rightarrow> string option" where
  "match_prefixed [] s = None"
| "match_prefixed (p # ps) s =
     (if prefix p (py_lower s) then
        (case capture_word_end (drop (length p) s) of
           Some w \<Rightarrow> Some w
         | None \<Rightarrow> match_prefixed ps s)
      else match_prefixed ps s)"

text \<open>\<open>^(\w+)_(?:id|cd|codigo)$\<close> with \<open>re.IGNORECASE\<close>: the three endings exclude
  one another, so the greedy group is everything before the ending.\<close>

definition match_table_id :: "string \<Rightarrow> string option" where
  "match_table_id s =
     (let (body, nl) = split_final_newline s in
        case find (\<lambda>e. suffix e (py_lower body)) [''_id'', ''_cd'', ''_codigo''] of
          None \<Rightarrow> None
        | Some e \<Rightarrow>
            (let w = take (length body - length e) body in
               if w \<noteq> [] \<and> list_all is_word_char w then Some w else None))"

definition relation_patterns :: "(string \<times> (string \<Rightarrow> string option)) list" where
  "relation_patterns =
     [(''id_pattern'', match_prefixed [''id_'', ''id'']),
      (''fk_pattern'', match_prefixed [''fk_'', ''fk'']),
      (''table_id_pattern'', match_table_id),
      (''ref_pattern'', match_prefixed [''ref_'', ''reference_'']),
      (''cod_pattern'', match_prefixed [''cod_'', ''codigo_'']),
      (''num_pattern'', match_prefixed [''num_'', ''numero_''])]"

section \<open>The catalog, the analyzer and its results\<close>

record column =
  name :: string
  foreign_keys :: "string set"

text \<open>\<open>metadata.tables\<close>: a dict from table name to table, in insertion order; of a
  table only its columns are read.\<close>

type_synonym catalog = "(string \<times> column list) list"

datatype exn = SQLAlchemyError | AttributeError | TypeError

record candidate =
  source_column :: string
  target_table :: string
  pattern_matched :: string
  confidence :: real
  suggested_relationship :: string

record DatabaseAnalyzer =
  url :: string
  metadata :: catalog
  engine_execute :: "string \<Rightarrow> exn + int option"

record recommendation =
  rec_type :: string
  message :: string
  rec_confidence :: real

record statistics =
  total_implicit_relationships :: nat
  tables_with_implicit_relations :: nat
  high_confidence_relations :: nat

record analysis =
  relationships :: "(string \<times> candidate list) list"
  stats :: statistics
  recommendations :: "recommendation list"

section \<open>Confidence\<close>

definition pattern_confidence :: "(string \<times> real) list" where
  "pattern_confidence =
     [(''id_pattern'', 0.8), (''fk_pattern'', 0.9), (''table_id_pattern'', 0.85),
      (''ref_pattern'', 0.7), (''cod_pattern'', 0.6), (''num_pattern'', 0.5)]"

definition base_confidence :: "string \<Rightarrow> real" where
  "base_confidence pattern_type =
     (case map_of pattern_confidence pattern_type of Some w \<Rightarrow> w | None \<Rightarrow> 0.3)"

definition spaces :: "nat \<Rightarrow> string" where
  "spaces n = replicate n CHR '' ''"

definition overlap_query :: "string \<Rightarrow> string \<Rightarrow> string \<Rightarrow> string" where
  "overlap_query source_tbl target_tbl column_name =
     [CHR 0x0A] @ spaces 16 @ ''SELECT COUNT(DISTINCT a.'' @ column_name @ '') as match_count''
     @ [CHR 0x0A] @ spaces 16 @ ''FROM '' @ source_tbl @ '' a''
     @ [CHR 0x0A] @ spaces 16 @ ''LEFT JOIN '' @ target_tbl @ '' b ON a.'' @ column_name
       @ '' = b.id''
     @ [CHR 0x0A] @ spaces 16 @ ''WHERE b.id IS NOT NULL''
     @ [CHR 0x0A] @ spaces 12"

text \<open>The body of the \<open>try\<close>: the query is executed and its scalar compared with 0.
  \<open>scalar()\<close> may give \<open>None\<close>, and \<open>None > 0\<close> raises \<open>TypeError\<close>.\<close>

definition sample_overlap :: "DatabaseAnalyzer \<Rightarrow> string \<Rightarrow> string \<Rightarrow> string \<Rightarrow> exn + bool" where
  "sample_overlap self source_tbl target_tbl column_name =
     (case engine_execute self (overlap_query source_tbl target_tbl column_name) of
        Inl e \<Rightarrow> Inl e
      | Inr None \<Rightarrow> Inl TypeError
      | Inr (Some result) \<Rightarrow> Inr (result > 0))"

text \<open>An exception of the \<open>try\<close> is caught (a warning is logged) and the confidence
  stays as it was.\<close>

definition calculate_relationship_confidence ::
  "DatabaseAnalyzer \<Rightarrow> string \<Rightarrow> string \<Rightarrow> string \<Rightarrow> string \<Rightarrow> real" where
  "calculate_relationship_confidence self source_tbl target_tbl column_name pattern_type =
     (let confidence = base_confidence pattern_type;
          confidence =
            (case sample_overlap self source_tbl target_tbl column_name of
               Inr True \<Rightarrow> confidence + 0.2
             | Inr False \<Rightarrow> confidence
             | Inl e \<Rightarrow> confidence)
      in min 1.0 confidence)"

section \<open>Finding implicit relationships\<close>

text \<open>\<open>relationships[source_table_name].append(c)\<close> on a \<open>defaultdict(list)\<close>: a
  missing key is added at the end with the one-element list.\<close>

fun dd_append :: "'k \<Rightarrow> 'v \<Rightarrow> ('k \<times> 'v list) list \<Rightarrow> ('k \<times> 'v list) list" where
  "dd_append k v [] = [(k, [v])]"
| "dd_append k v ((k', vs) # d) =
     (if k = k' then (k', vs @ [v]) # d else (k', vs) # dd_append k v d)"

definition table_names_of :: "catalog \<Rightarrow> (string \<rightharpoonup> string)" where
  "table_names_of tables =
     fold (\<lambda>nm m. m(normalize_table_name nm \<mapsto> nm)) (map fst tables) Map.empty"

definition pattern_matches :: "string \<Rightarrow> (string \<times> string) list" where
  "pattern_matches column_name =
     List.map_filter (\<lambda>(pattern_name, pattern). map_option (Pair pattern_name) (pattern column_name))
       relation_patterns"

definition make_candidate :: "DatabaseAnalyzer \<Rightarrow> string \<Rightarrow> string \<Rightarrow> string \<Rightarrow> string \<Rightarrow> candidate" where
  "make_candidate self source_table_name target column_name pattern_name =
     \<lparr>source_column = column_name,
      target_table = target,
      pattern_matched = pattern_name,
      confidence = calculate_relationship_confidence self source_table_name target
                     column_name pattern_name,
      suggested_relationship =
        source_table_name @ ''.'' @ column_name @ '' -> '' @ target @ ''.id''\<rparr>"

definition variation_step ::
  "DatabaseAnalyzer \<Rightarrow> (string \<rightharpoonup> string) \<Rightarrow> string \<Rightarrow> string \<Rightarrow> string \<Rightarrow> string
    \<Rightarrow> (string \<times> candidate list) list \<Rightarrow> (string \<times> candidate list) list" where
  "variation_step self table_names source_table_name column_name pattern_name variation rels =
     (case table_names variation of
        None \<Rightarrow> rels
      | Some target \<Rightarrow>
          if target = source_table_name then rels
          else dd_append source_table_name
                 (make_candidate self source_table_name target column_name pattern_name) rels)"

definition pattern_step ::
  "DatabaseAnalyzer \<Rightarrow> (string \<rightharpoonup> string) \<Rightarrow> string \<Rightarrow> string \<Rightarrow> string \<times> string
    \<Rightarrow> (string \<times> candidate list) list \<Rightarrow> (string \<times> candidate list) list" where
  "pattern_step self table_names source_table_name column_name pm rels =
     fold (variation_step self table_names source_table_name column_name (fst pm))
       (variations_iter (snd pm)) rels"

definition column_step ::
  "DatabaseAnalyzer \<Rightarrow> (string \<rightharpoonup> string) \<Rightarrow> string \<Rightarrow> column
    \<Rightarrow> (string \<times> candidate list) list \<Rightarrow> (string \<times> candidate list) list" where
  "column_step self table_names source_table_name col rels =
     (let column_name = py_lower (name col) in
        if foreign_keys col \<noteq> {} then rels
        else fold (pattern_step self table_names source_table_name column_name)
               (pattern_matches column_name) rels)"

definition table_step ::
  "DatabaseAnalyzer \<Rightarrow> (string \<rightharpoonup> string) \<Rightarrow> string \<times> column list
    \<Rightarrow> (string \<times> candidate list) list \<Rightarrow> (string \<times> candidate list) list" where
  "table_step self table_names tbl rels =
     fold (column_step self table_names (fst tbl)) (snd tbl) rels"

definition find_implicit_relationships :: "DatabaseAnalyzer \<Rightarrow> (string \<times> candidate list) list" where
  "find_implicit_relationships self =
     fold (table_step self (table_names_of (metadata self))) (metadata self) []"

section \<open>The report\<close>

definition analyze_and_suggest_relationships :: "DatabaseAnalyzer \<Rightarrow> analysis" where
  "analyze_and_suggest_relationships self =
     (let implicit_relations = find_implicit_relationships self in
        \<lparr>relationships = implicit_relations,
         stats =
           \<lparr>total_implicit_relationships = sum_list (map (\<lambda>kv. length (snd kv)) implicit_relations),
            tables_with_implicit_relations = length implicit_relations,
            high_confidence_relations =
              length (filter (\<lambda>rel. confidence rel \<ge> 0.8) (concat (map snd implicit_relations)))\<rparr>,
         recommendations = []\<rparr>)"

section \<open>Construction of the analyzer\<close>

text \<open>What the database does when asked: whether \<open>create_engine\<close> and
  \<open>inspect\<close> raise, the outcome of \<open>metadata.reflect\<close>, and the answer to a
  query.\<close>

record database =
  create_engine_error :: "exn option"
  reflect :: "exn + catalog"
  inspect_error :: "exn option"
  execute :: "string \<Rightarrow> exn + int option"

text \<open>\<open>_get_all_metadata\<close> logs a failed reflection and raises it again. The
  constructor calls it before it sets \<open>self.logger\<close>; then the handler's own
  \<open>self.logger.error\<close> raises \<open>AttributeError\<close>, and that is what leaves.\<close>

definition get_all_metadata :: "bool \<Rightarrow> database \<Rightarrow> exn + catalog" where
  "get_all_metadata has_logger db =
     (case reflect db of
        Inr md \<Rightarrow> Inr md
      | Inl e \<Rightarrow> if has_logger then Inl e else Inl AttributeError)"

definition init :: "database \<Rightarrow> string \<Rightarrow> exn + DatabaseAnalyzer" where
  "init db u =
     (case create_engine_error db of
        Some e \<Rightarrow> Inl e
      | None \<Rightarrow>
          (case get_all_metadata False db of
             Inl e \<Rightarrow> Inl e
           | Inr md \<Rightarrow>
               (case inspect_error db of
                  Some e \<Rightarrow> Inl e
                | None \<Rightarrow> Inr \<lparr>url = u, metadata = md, engine_execute = execute db\<rparr>)))"

text \<open>The two calls of the main block: construct the analyzer, then analyze.\<close>

definition run_analysis :: "database \<Rightarrow> string \<Rightarrow> exn + analysis" where
  "run_analysis db u =
     (case init db u of
        Inl e \<Rightarrow> Inl e
      | Inr analyzer \<Rightarrow> Inr (analyze_and_suggest_relationships analyzer))"

section \<open>Notions used to state the properties\<close>

text \<open>The report is a dict from source table to its candidates. \<open>candidates_of\<close>
  reads it: the candidates listed under a key, none for a key that is absent. A
  \<open>well_formed\<close> report has no key twice and no key with an empty list.\<close>

definition candidates_of :: "('k \<times> 'v list) list \<Rightarrow> 'k \<Rightarrow> 'v list" where
  "candidates_of rels k = concat (map snd (filter (\<lambda>kv. fst kv = k) rels))"

definition well_formed :: "('k \<times> 'v list) list \<Rightarrow> bool" where
  "well_formed rels \<longleftrightarrow> distinct (map fst rels) \<and> [] \<notin> snd ` set rels"

text \<open>What one variation, and one column, add to the candidates of a source table.\<close>

definition variation_emits ::
  "DatabaseAnalyzer \<Rightarrow> (string \<rightharpoonup> string) \<Rightarrow> string \<Rightarrow> string \<Rightarrow> string \<Rightarrow> string \<Rightarrow> candidate set" where
  "variation_emits self tn src col pat var =
     (case tn var of
        None \<Rightarrow> {}
      | Some tgt \<Rightarrow> if tgt = src then {} else {make_candidate self src tgt col pat})"

definition column_emits ::
  "DatabaseAnalyzer \<Rightarrow> (string \<rightharpoonup> string) \<Rightarrow> string \<Rightarrow> column \<Rightarrow> candidate set" where
  "column_emits self tn src c =
     (if foreign_keys c \<noteq> {} then {}
      else (\<Union>pm\<in>set (pattern_matches (py_lower (name c))).
              \<Union>var\<in>set (variations_iter (snd pm)).
                variation_emits self tn src (py_lower (name c)) (fst pm) var))"

text \<open>The sampler confirms an overlap when the query returns a count above zero; the
  bonus of a candidate is 0.2 then and 0 otherwise.\<close>

definition sampler_confirms :: "DatabaseAnalyzer \<Rightarrow> string \<Rightarrow> string \<Rightarrow> string \<Rightarrow> bool" where
  "sampler_confirms self src tgt col =
     (case engine_execute self (overlap_query src tgt col) of
        Inr (Some n) \<Rightarrow> n > 0
      | _ \<Rightarrow> False)"

definition overlap_bonus :: "DatabaseAnalyzer \<Rightarrow> string \<Rightarrow> candidate \<Rightarrow> real" where
  "overlap_bonus self src c =
     (if sampler_confirms self src (target_table c) (source_column c) then 0.2 else 0)"

text \<open>The catalog without the columns that carry a declared foreign key.\<close>

definition drop_declared_fk :: "catalog \<Rightarrow> catalog" where
  "drop_declared_fk tables = map (\<lambda>t. (fst t, filter (\<lambda>c. foreign_keys c = {}) (snd t))) tables"

section \<open>Example catalogs\<close>

text \<open>A star schema as \<open>fake_database.py\<close> creates it, cut down to three tables; the
  column \<open>id_loja\<close> of the fact table carries a declared foreign key.\<close>

definition scenario_tables :: catalog where
  "scenario_tables =
     [(''dim_cliente'', [\<lparr>name = ''id_cliente'', foreign_keys = {}\<rparr>,
                         \<lparr>name = ''nome_cliente'', foreign_keys = {}\<rparr>]),
      (''dim_loja'', [\<lparr>name = ''id_loja'', foreign_keys = {}\<rparr>]),
      (''fato_vendas'', [\<lparr>name = ''id_venda'', foreign_keys = {}\<rparr>,
                         \<lparr>name = ''id_cliente'', foreign_keys = {}\<rparr>,
                         \<lparr>name = ''id_loja'', foreign_keys = {''dim_loja.id_loja''}\<rparr>])]"

definition scenario_analyzer :: "(string \<Rightarrow> exn + int option) \<Rightarrow> DatabaseAnalyzer" where
  "scenario_analyzer ex = \<lparr>url = ''sqlite://'', metadata = scenario_tables, engine_execute = ex\<rparr>"

definition scenario_candidate :: "real \<Rightarrow> candidate" where
  "scenario_candidate conf =
     \<lparr>source_column = ''id_cliente'', target_table = ''dim_cliente'',
      pattern_matched = ''id_pattern'', confidence = conf,
      suggested_relationship = ''fato_vendas.id_cliente -> dim_cliente.id''\<rparr>"

definition confirming_engine :: "string \<Rightarrow> exn + int option" where
  "confirming_engine q = Inr (Some 3)"

definition failing_engine :: "string \<Rightarrow> exn + int option" where
  "failing_engine q = Inl SQLAlchemyError"

definition scenario_db :: "(string \<Rightarrow> exn + int option) \<Rightarrow> database" where
  "scenario_db ex =
     \<lparr>create_engine_error = None, reflect = Inr scenario_tables, inspect_error = None,
      execute = ex\<rparr>"

definition unreachable_db :: database where
  "unreachable_db =
     \<lparr>create_engine_error = None, reflect = Inl SQLAlchemyError, inspect_error = None,
      execute = failing_engine\<rparr>"

text \<open>A catalog in which a later table, \<open>tb_cliente\<close>, normalizes to the same token as
  \<open>dim_cliente\<close>.\<close>

definition collision_tables :: catalog where
  "collision_tables =
     [(''dim_cliente'', [\<lparr>name = ''nome'', foreign_keys = {}\<rparr>]),
      (''fato_vendas'', [\<lparr>name = ''id_cliente'', foreign_keys = {}\<rparr>]),
      (''tb_cliente'', [\<lparr>name = ''nome'', foreign_keys = {}\<rparr>])]"

definition collision_analyzer :: DatabaseAnalyzer where
  "collision_analyzer =
     \<lparr>url = ''sqlite://'', metadata = collision_tables, engine_execute = confirming_engine\<rparr>"

section \<open>Normalization and variations\<close>

lemmas norm_defs = normalize_table_name_def strip_plural_suffix_def strip_table_prefix_def
  py_lower_def lower_char_def table_prefixes_def split_final_newline_def suffix_to_prefix

lemma lower_char_idem: "lower_char (lower_char c) = lower_char c"
  by (simp add: lower_char_def)

lemma py_lower_idem_on: "set s \<subseteq> range lower_char \<Longrightarrow> py_lower s = s"
  unfolding py_lower_def
  by (induction s) (auto simp: lower_char_idem)

lemma split_final_newline_append:
  "split_final_newline s = (b, nl) \<Longrightarrow> s = b @ nl"
  by (auto simp: split_final_newline_def split: if_splits)
     (metis append_butlast_last_id)

lemma set_strip_plural_suffix: "set (strip_plural_suffix s) \<subseteq> set s"
proof -
  obtain b nl where sp: "split_final_newline s = (b, nl)" by (cases "split_final_newline s")
  have s: "s = b @ nl" using sp by (rule split_final_newline_append)
  have "set (take (length b - 2) b) \<subseteq> set b" by (rule set_take_subset)
  moreover have "set (butlast b) \<subseteq> set b" by (auto dest: in_set_butlastD)
  ultimately show ?thesis
    unfolding strip_plural_suffix_def sp by (auto simp: s)
qed

lemma set_strip_table_prefix: "set (strip_table_prefix s) \<subseteq> set s"
  unfolding strip_table_prefix_def
  by (auto split: option.splits dest: in_set_dropD)

lemma set_normalize_subset:
  "set (normalize_table_name x) \<subseteq> set (py_lower x) - {CHR ''_''}"
  unfolding normalize_table_name_def
  using set_strip_plural_suffix set_strip_table_prefix by fastforce

lemma strip_table_prefix_no_underscore:
  "CHR ''_'' \<notin> set s \<Longrightarrow> strip_table_prefix s = s"
  unfolding strip_table_prefix_def table_prefixes_def
  by (auto simp: prefix_def)

lemma strip_plural_suffix_fixed:
  "strip_plural_suffix s = s \<longleftrightarrow> \<not> suffix ''s'' (fst (split_final_newline s))"
proof -
  obtain b nl where sp: "split_final_newline s = (b, nl)" by (cases "split_final_newline s")
  have s: "s = b @ nl" using sp by (rule split_final_newline_append)
  have two: "suffix ''es'' b \<or> suffix ''is'' b \<Longrightarrow> suffix ''s'' b \<and> take (length b - 2) b \<noteq> b"
    by (auto simp: suffix_def)
  have one: "suffix ''s'' b \<Longrightarrow> butlast b \<noteq> b"
    by (auto simp: suffix_def)
  show ?thesis
    unfolding strip_plural_suffix_def sp
    using two one by (auto simp: s)
qed

lemma normalize_of_normalized:
  "normalize_table_name (normalize_table_name x) = strip_plural_suffix (normalize_table_name x)"
proof -
  let ?y = "normalize_table_name x"
  have sub: "set ?y \<subseteq> set (py_lower x) - {CHR ''_''}" by (rule set_normalize_subset)
  have "set ?y \<subseteq> range lower_char" using sub by (auto simp: py_lower_def)
  then have low: "py_lower ?y = ?y" by (rule py_lower_idem_on)
  have nou: "CHR ''_'' \<notin> set ?y" using sub by auto
  then have pre: "strip_table_prefix ?y = ?y" by (rule strip_table_prefix_no_underscore)
  have "CHR ''_'' \<notin> set (strip_plural_suffix ?y)"
    using nou set_strip_plural_suffix by blast
  then have "filter (\<lambda>c. c \<noteq> CHR ''_'') (strip_plural_suffix ?y) = strip_plural_suffix ?y"
    by (auto simp: filter_id_conv)
  then show ?thesis
    by (simp add: normalize_table_name_def[of ?y] low pre)
qed

lemma lower_char_newline: "lower_char c = CHR 0x0A \<Longrightarrow> c = CHR 0x0A"
  by (simp add: lower_char_def split: if_splits)

lemma normalize_no_newline:
  assumes "CHR 0x0A \<notin> set x"
  shows "CHR 0x0A \<notin> set (normalize_table_name x)"
proof
  assume "CHR 0x0A \<in> set (normalize_table_name x)"
  then have "CHR 0x0A \<in> set (py_lower x)" using set_normalize_subset by blast
  then obtain c where "c \<in> set x" "lower_char c = CHR 0x0A"
    by (auto simp: py_lower_def)
  then show False using assms lower_char_newline by blast
qed

lemma split_final_newline_none:
  "CHR 0x0A \<notin> set s \<Longrightarrow> split_final_newline s = (s, [])"
  by (simp add: split_final_newline_def) (metis last_in_set)

lemma length_strip_table_prefix: "length (strip_table_prefix s) \<le> length s"
  by (simp add: strip_table_prefix_def split: option.splits)

lemma length_strip_plural_suffix: "length (strip_plural_suffix s) \<le> length s"
proof -
  obtain b nl where sp: "split_final_newline s = (b, nl)" by (cases "split_final_newline s")
  have s: "s = b @ nl" using sp by (rule split_final_newline_append)
  show ?thesis
    unfolding strip_plural_suffix_def sp by (simp add: s)
qed

lemma length_normalize: "length (normalize_table_name t) \<le> length t"
proof -
  have "length (normalize_table_name t) \<le> length (strip_plural_suffix (strip_table_prefix (py_lower t)))"
    unfolding normalize_table_name_def by (rule length_filter_le)
  also have "\<dots> \<le> length (strip_table_prefix (py_lower t))" by (rule length_strip_plural_suffix)
  also have "\<dots> \<le> length (py_lower t)" by (rule length_strip_table_prefix)
  also have "\<dots> = length t" by (simp add: py_lower_def)
  finally show ?thesis .
qed

lemma strip_vowels_input:
  assumes "t = strip_vowels (normalize_table_name t)"
  shows "t = normalize_table_name t"
proof -
  let ?b = "normalize_table_name t"
  have "length ?b \<le> length (filter (\<lambda>c. c \<notin> set ''aeiou'') ?b)"
    using assms length_normalize [of t] by (simp add: strip_vowels_def)
  then have "filter (\<lambda>c. c \<notin> set ''aeiou'') ?b = ?b"
    by (metis filter_id_conv length_filter_less not_less)
  then show ?thesis using assms by (simp add: strip_vowels_def)
qed

text \<open>
  C4 (amended). Normalizing twice gives the same token as normalizing once exactly when
  the normalized token, one final newline apart, does not end in \<open>s\<close>; for a name
  that contains no newline character, exactly when the normalized token does not end in
  \<open>s\<close>. The plural pattern removes one suffix per call, so a token that still ends
  in \<open>s\<close> loses another suffix.
\<close>

theorem normalize_idempotent_iff:
  "(normalize_table_name (normalize_table_name x) = normalize_table_name x
      \<longleftrightarrow> \<not> suffix ''s'' (fst (split_final_newline (normalize_table_name x))))
   \<and> (CHR 0x0A \<notin> set x \<longrightarrow>
        (normalize_table_name (normalize_table_name x) = normalize_table_name x
           \<longleftrightarrow> \<not> suffix ''s'' (normalize_table_name x)))"
proof -
  have a: "normalize_table_name (normalize_table_name x) = normalize_table_name x
      \<longleftrightarrow> \<not> suffix ''s'' (fst (split_final_newline (normalize_table_name x)))"
    by (simp add: normalize_of_normalized strip_plural_suffix_fixed)
  have "fst (split_final_newline (normalize_table_name x)) = normalize_table_name x"
    if "CHR 0x0A \<notin> set x"
    using normalize_no_newline [OF that] by (simp add: split_final_newline_none)
  then show ?thesis using a by simp
qed

theorem normalize_idempotent_iff_witness:
  "CHR 0x0A \<notin> set ''dim_cliente''
   \<and> normalize_table_name (normalize_table_name ''dim_cliente'') = normalize_table_name ''dim_cliente''
   \<and> \<not> suffix ''s'' (normalize_table_name ''dim_cliente'')
   \<and> \<not> suffix ''s'' (fst (split_final_newline (normalize_table_name ''dim_cliente'')))"
  using normalize_idempotent_iff [of "''dim_cliente''"]
  by (simp add: norm_defs)

text \<open>C4 as stated fails: \<open>classes\<close> normalizes to \<open>class\<close>, and \<open>class\<close>
  to \<open>clas\<close>.\<close>

theorem normalize_not_idempotent:
  "normalize_table_name (normalize_table_name ''classes'') \<noteq> normalize_table_name ''classes''"
  by (simp add: norm_defs)

text \<open>
  C5 (amended). For every token the variation set is not empty and contains the
  normalized form \<open>b\<close> of the token; it contains the token itself exactly when the
  token is \<open>b\<close>, \<open>b\<close> followed by \<open>s\<close>, or \<open>b\<close> followed by \<open>es\<close>.
\<close>

theorem variations_contain_input_iff:
  "get_all_table_variations t \<noteq> {}
   \<and> normalize_table_name t \<in> get_all_table_variations t
   \<and> (t \<in> get_all_table_variations t \<longleftrightarrow>
        t = normalize_table_name t \<or> t = normalize_table_name t @ ''s''
        \<or> t = normalize_table_name t @ ''es'')"
  using strip_vowels_input [of t]
  by (auto simp: get_all_table_variations_def Let_def)

theorem variations_contain_input_iff_witness:
  "get_all_table_variations ''clientes'' \<noteq> {}
   \<and> normalize_table_name ''clientes'' \<in> get_all_table_variations ''clientes''
   \<and> ''clientes'' \<in> get_all_table_variations ''clientes''
   \<and> ''clientes'' = normalize_table_name ''clientes'' @ ''es''"
  using variations_contain_input_iff [of "''clientes''"]
  by (simp add: norm_defs)

text \<open>C5 as stated fails: the variations of \<open>dim_cliente\<close> are built from
  \<open>cliente\<close> and do not contain \<open>dim_cliente\<close>.\<close>

theorem variations_miss_input:
  "''dim_cliente'' \<notin> get_all_table_variations ''dim_cliente''"
  by (simp add: get_all_table_variations_def Let_def strip_vowels_def norm_defs)

section \<open>The report as a dict\<close>

lemma candidates_of_Nil: "candidates_of [] k = []"
  by (simp add: candidates_of_def)

lemma candidates_of_Cons:
  "candidates_of ((k', vs) # d) k = (if k' = k then vs @ candidates_of d k else candidates_of d k)"
  by (simp add: candidates_of_def)

lemma candidates_of_dd_append:
  "set (candidates_of (dd_append k v d) k') =
     set (candidates_of d k') \<union> (if k = k' then {v} else {})"
proof (induction d)
  case Nil
  show ?case by (simp add: candidates_of_Nil candidates_of_Cons)
next
  case (Cons kv d)
  obtain k0 vs where kv: "kv = (k0, vs)" by (cases kv)
  show ?case
  proof (cases "k = k0")
    case True
    show ?thesis
      by (cases "k0 = k'") (simp_all add: kv True candidates_of_Cons Un_ac)
  next
    case False
    show ?thesis
      by (cases "k0 = k'") (simp_all add: kv False candidates_of_Cons Cons.IH Un_ac)
  qed
qed

lemma keys_dd_append: "fst ` set (dd_append k v d) = insert k (fst ` set d)"
  by (induction k v d rule: dd_append.induct) auto

lemma well_formed_dd_append: "well_formed d \<Longrightarrow> well_formed (dd_append k v d)"
proof (induction d)
  case Nil
  then show ?case by (simp add: well_formed_def)
next
  case (Cons kv d)
  obtain k' vs where kv: "kv = (k', vs)" by (cases kv)
  have wf: "well_formed d" using Cons.prems by (auto simp: well_formed_def)
  have ih: "well_formed (dd_append k v d)" using Cons.IH wf by simp
  show ?case
  proof (cases "k = k'")
    case True
    then show ?thesis using Cons.prems by (auto simp: kv well_formed_def)
  next
    case False
    have "k' \<notin> fst ` set (dd_append k v d)"
      using Cons.prems False by (auto simp: keys_dd_append kv well_formed_def)
    then show ?thesis using ih Cons.prems False
      by (auto simp: kv well_formed_def)
  qed
qed

lemma fold_preserves:
  assumes "P s" and "\<And>x s. P s \<Longrightarrow> P (f x s)"
  shows "P (fold f xs s)"
  using assms(1) by (induction xs arbitrary: s) (auto intro: assms(2))

lemma well_formed_variation_step:
  "well_formed rels \<Longrightarrow> well_formed (variation_step self tn src col pat var rels)"
  by (auto simp: variation_step_def well_formed_dd_append split: option.splits)

lemma well_formed_pattern_step:
  "well_formed rels \<Longrightarrow> well_formed (pattern_step self tn src col pm rels)"
  unfolding pattern_step_def
  by (rule fold_preserves [where P = well_formed]) (auto intro: well_formed_variation_step)

lemma well_formed_column_step:
  "well_formed rels \<Longrightarrow> well_formed (column_step self tn src col rels)"
  unfolding column_step_def Let_def
  by (auto intro: fold_preserves [where P = well_formed] well_formed_pattern_step)

lemma well_formed_table_step:
  "well_formed rels \<Longrightarrow> well_formed (table_step self tn tbl rels)"
  unfolding table_step_def
  by (rule fold_preserves [where P = well_formed]) (auto intro: well_formed_column_step)

lemma well_formed_find: "well_formed (find_implicit_relationships self)"
  unfolding find_implicit_relationships_def
proof (rule fold_preserves [where P = well_formed])
  show "well_formed ([] :: (string \<times> candidate list) list)" by (simp add: well_formed_def)
next
  fix x and s :: "(string \<times> candidate list) list" assume "well_formed s"
  then show "well_formed (table_step self (table_names_of (metadata self)) x s)"
    by (rule well_formed_table_step)
qed

lemma fold_candidates:
  assumes "\<And>x rels. x \<in> set xs \<Longrightarrow>
     set (candidates_of (f x rels) k) = set (candidates_of rels k) \<union> E x"
  shows "set (candidates_of (fold f xs rels) k) = set (candidates_of rels k) \<union> (\<Union>x\<in>set xs. E x)"
  using assms
proof (induction xs arbitrary: rels)
  case Nil
  then show ?case by simp
next
  case (Cons x xs)
  have "set (candidates_of (fold f xs (f x rels)) k) =
          set (candidates_of (f x rels) k) \<union> (\<Union>y\<in>set xs. E y)"
    by (rule Cons.IH) (simp add: Cons.prems)
  then show ?case by (auto simp: Cons.prems)
qed

lemma variation_step_candidates:
  "set (candidates_of (variation_step self tn src col pat var rels) k) =
     set (candidates_of rels k) \<union> (if k = src then variation_emits self tn src col pat var else {})"
  by (auto simp: variation_step_def variation_emits_def candidates_of_dd_append
           split: option.splits)

lemma pattern_step_candidates:
  "set (candidates_of (pattern_step self tn src col pm rels) k) =
     set (candidates_of rels k) \<union>
     (\<Union>var\<in>set (variations_iter (snd pm)).
        if k = src then variation_emits self tn src col (fst pm) var else {})"
  unfolding pattern_step_def
  by (rule fold_candidates) (rule variation_step_candidates)

lemma column_step_candidates:
  "set (candidates_of (column_step self tn src c rels) k) =
     set (candidates_of rels k) \<union> (if k = src then column_emits self tn src c else {})"
proof (cases "foreign_keys c = {}")
  case False
  then show ?thesis by (simp add: column_step_def column_emits_def)
next
  case True
  have "set (candidates_of (fold (pattern_step self tn src (py_lower (name c)))
              (pattern_matches (py_lower (name c))) rels) k) =
        set (candidates_of rels k) \<union>
        (\<Union>pm\<in>set (pattern_matches (py_lower (name c))).
           \<Union>var\<in>set (variations_iter (snd pm)).
             if k = src then variation_emits self tn src (py_lower (name c)) (fst pm) var else {})"
    by (rule fold_candidates) (rule pattern_step_candidates)
  then show ?thesis using True
    by (simp add: column_step_def column_emits_def Let_def)
qed

lemma table_step_candidates:
  "set (candidates_of (table_step self tn tbl rels) k) =
     set (candidates_of rels k) \<union>
     (\<Union>c\<in>set (snd tbl). if k = fst tbl then column_emits self tn (fst tbl) c else {})"
  unfolding table_step_def
  by (rule fold_candidates) (rule column_step_candidates)

lemma find_candidates:
  "set (candidates_of (find_implicit_relationships self) k) =
     (\<Union>tbl\<in>set (metadata self). \<Union>c\<in>set (snd tbl).
        if k = fst tbl then column_emits self (table_names_of (metadata self)) (fst tbl) c else {})"
proof -
  have "set (candidates_of (fold (table_step self (table_names_of (metadata self))) (metadata self) []) k) =
        set (candidates_of [] k) \<union>
        (\<Union>tbl\<in>set (metadata self). \<Union>c\<in>set (snd tbl).
        if k = fst tbl then column_emits self (table_names_of (metadata self)) (fst tbl) c else {})"
    by (rule fold_candidates) (rule table_step_candidates)
  then show ?thesis
    by (simp add: find_implicit_relationships_def candidates_of_Nil)
qed

lemma find_candidates_iff:
  "c \<in> set (candidates_of (find_implicit_relationships self) k) \<longleftrightarrow>
     (\<exists>cols col pat part var tgt.
        (k, cols) \<in> set (metadata self) \<and> col \<in> set cols \<and> foreign_keys col = {}
        \<and> (pat, part) \<in> set (pattern_matches (py_lower (name col)))
        \<and> var \<in> set (variations_iter part)
        \<and> table_names_of (metadata self) var = Some tgt \<and> tgt \<noteq> k
        \<and> c = make_candidate self k tgt (py_lower (name col)) pat)"
  (is "?L \<longleftrightarrow> ?R")
proof
  assume ?L
  then obtain tbl col where t: "tbl \<in> set (metadata self)" "col \<in> set (snd tbl)" "k = fst tbl"
    and e: "c \<in> column_emits self (table_names_of (metadata self)) k col"
    unfolding find_candidates by (auto split: if_splits)
  from e have fk: "foreign_keys col = {}"
    by (auto simp: column_emits_def split: if_splits)
  from e fk obtain pm var where pm: "pm \<in> set (pattern_matches (py_lower (name col)))"
    and var: "var \<in> set (variations_iter (snd pm))"
    and v: "c \<in> variation_emits self (table_names_of (metadata self)) k (py_lower (name col)) (fst pm) var"
    by (auto simp: column_emits_def)
  from v obtain tgt where "table_names_of (metadata self) var = Some tgt" "tgt \<noteq> k"
    "c = make_candidate self k tgt (py_lower (name col)) (fst pm)"
    by (auto simp: variation_emits_def split: option.splits if_splits)
  moreover have "(k, snd tbl) \<in> set (metadata self)" using t by simp
  moreover have "(fst pm, snd pm) \<in> set (pattern_matches (py_lower (name col)))" using pm by simp
  ultimately show ?R using t(2) fk var by blast
next
  assume ?R
  then obtain cols col pat part var tgt where
    h: "(k, cols) \<in> set (metadata self)" "col \<in> set cols" "foreign_keys col = {}"
       "(pat, part) \<in> set (pattern_matches (py_lower (name col)))"
       "var \<in> set (variations_iter part)"
       "table_names_of (metadata self) var = Some tgt" "tgt \<noteq> k"
       "c = make_candidate self k tgt (py_lower (name col)) pat"
    by blast
  have "c \<in> variation_emits self (table_names_of (metadata self)) k (py_lower (name col)) pat var"
    using h(6,7,8) by (simp add: variation_emits_def)
  then have "c \<in> column_emits self (table_names_of (metadata self)) k col"
    using h(3,4,5) by (force simp: column_emits_def)
  then show ?L
    unfolding find_candidates using h(1,2) by force
qed

lemma find_snoc:
  "find P (xs @ [x]) =
     (case find P xs of Some y \<Rightarrow> Some y | None \<Rightarrow> if P x then Some x else None)"
  by (induction xs) simp_all

lemma fold_update_lookup:
  "fold (\<lambda>nm m. m(f nm \<mapsto> nm)) xs m k =
     (case find (\<lambda>nm. f nm = k) (rev xs) of Some nm \<Rightarrow> Some nm | None \<Rightarrow> m k)"
proof (induction xs arbitrary: m)
  case Nil
  show ?case by simp
next
  case (Cons x xs)
  have "fold (\<lambda>nm m. m(f nm \<mapsto> nm)) (x # xs) m k =
          fold (\<lambda>nm m. m(f nm \<mapsto> nm)) xs (m(f x \<mapsto> x)) k"
    by (simp only: fold_simps)
  also have "\<dots> = (case find (\<lambda>nm. f nm = k) (rev xs) of
                       Some nm \<Rightarrow> Some nm | None \<Rightarrow> (m(f x \<mapsto> x)) k)"
    by (rule Cons.IH)
  also have "\<dots> = (case find (\<lambda>nm. f nm = k) (rev (x # xs)) of
                       Some nm \<Rightarrow> Some nm | None \<Rightarrow> m k)"
    by (simp add: find_snoc split: option.splits)
  finally show ?case .
qed

lemma table_names_of_lookup:
  "table_names_of tables k =
     find (\<lambda>nm. normalize_table_name nm = k) (rev (map fst tables))"
  unfolding table_names_of_def
  by (simp add: fold_update_lookup split: option.splits)

section \<open>Evaluation on the example catalogs\<close>

lemma set_variations_iter: "set (variations_iter t) = get_all_table_variations t"
  by (simp only: variations_iter_def get_all_table_variations_def Let_def set_remdups list.set)

lemma example_normalized:
  "normalize_table_name ''dim_cliente'' = ''cliente''"
  "normalize_table_name ''dim_loja'' = ''loja''"
  "normalize_table_name ''fato_vendas'' = ''venda''"
  "normalize_table_name ''tb_cliente'' = ''cliente''"
  by (simp_all add: norm_defs)

lemma scenario_table_names:
  "table_names_of scenario_tables ''cliente'' = Some ''dim_cliente''"
  "table_names_of scenario_tables ''clientes'' = None"
  "table_names_of scenario_tables ''clientees'' = None"
  "table_names_of scenario_tables ''clnt'' = None"
  "table_names_of scenario_tables ''loja'' = Some ''dim_loja''"
  "table_names_of scenario_tables ''lojas'' = None"
  "table_names_of scenario_tables ''lojaes'' = None"
  "table_names_of scenario_tables ''lj'' = None"
  "table_names_of scenario_tables ''venda'' = Some ''fato_vendas''"
  "table_names_of scenario_tables ''vendas'' = None"
  "table_names_of scenario_tables ''vendaes'' = None"
  "table_names_of scenario_tables ''vnd'' = None"
  by (simp_all add: table_names_of_lookup scenario_tables_def example_normalized)

lemma collision_table_names:
  "table_names_of collision_tables ''cliente'' = Some ''tb_cliente''"
  "table_names_of collision_tables ''clientes'' = None"
  "table_names_of collision_tables ''clientees'' = None"
  "table_names_of collision_tables ''clnt'' = None"
  by (simp_all add: table_names_of_lookup collision_tables_def example_normalized)

lemmas match_defs = pattern_matches_def relation_patterns_def List.map_filter_def
  capture_word_end_def match_table_id_def is_word_char_def
  py_lower_def lower_char_def split_final_newline_def suffix_to_prefix

lemma example_pattern_matches:
  "pattern_matches ''id_cliente'' = [(''id_pattern'', ''cliente'')]"
  "pattern_matches ''nome_cliente'' = []"
  "pattern_matches ''id_loja'' = [(''id_pattern'', ''loja'')]"
  "pattern_matches ''id_venda'' = [(''id_pattern'', ''venda'')]"
  "pattern_matches ''nome'' = []"
  by (simp_all add: match_defs)

lemma example_variations:
  "variations_iter ''cliente'' = [''cliente'', ''clientes'', ''clientees'', ''clnt'']"
  "variations_iter ''loja'' = [''loja'', ''lojas'', ''lojaes'', ''lj'']"
  "variations_iter ''venda'' = [''venda'', ''vendas'', ''vendaes'', ''vnd'']"
  by (simp_all add: variations_iter_def strip_vowels_def norm_defs)

lemma example_lower:
  "py_lower ''id_cliente'' = ''id_cliente''" "py_lower ''nome_cliente'' = ''nome_cliente''"
  "py_lower ''id_loja'' = ''id_loja''" "py_lower ''id_venda'' = ''id_venda''"
  "py_lower ''nome'' = ''nome''"
  by (simp_all add: py_lower_def lower_char_def)

lemma scenario_pattern_step_self:
  "pattern_step A (table_names_of scenario_tables) ''dim_cliente'' col (''id_pattern'', ''cliente'') rels = rels"
  "pattern_step A (table_names_of scenario_tables) ''dim_loja'' col (''id_pattern'', ''loja'') rels = rels"
  "pattern_step A (table_names_of scenario_tables) ''fato_vendas'' col (''id_pattern'', ''venda'') rels = rels"
  by (simp_all add: pattern_step_def example_variations variation_step_def scenario_table_names)

lemma scenario_pattern_step_cliente:
  "pattern_step A (table_names_of scenario_tables) ''fato_vendas'' col (''id_pattern'', ''cliente'') rels =
     dd_append ''fato_vendas'' (make_candidate A ''fato_vendas'' ''dim_cliente'' col ''id_pattern'') rels"
  by (simp add: pattern_step_def example_variations variation_step_def scenario_table_names)

lemma scenario_column_steps:
  "column_step A (table_names_of scenario_tables) ''dim_cliente''
     \<lparr>name = ''id_cliente'', foreign_keys = {}\<rparr> rels = rels"
  "column_step A (table_names_of scenario_tables) ''dim_cliente''
     \<lparr>name = ''nome_cliente'', foreign_keys = {}\<rparr> rels = rels"
  "column_step A (table_names_of scenario_tables) ''dim_loja''
     \<lparr>name = ''id_loja'', foreign_keys = {}\<rparr> rels = rels"
  "column_step A (table_names_of scenario_tables) ''fato_vendas''
     \<lparr>name = ''id_venda'', foreign_keys = {}\<rparr> rels = rels"
  "column_step A (table_names_of scenario_tables) ''fato_vendas''
     \<lparr>name = ''id_loja'', foreign_keys = {''dim_loja.id_loja''}\<rparr> rels = rels"
  "column_step A (table_names_of scenario_tables) ''fato_vendas''
     \<lparr>name = ''id_cliente'', foreign_keys = {}\<rparr> rels =
     dd_append ''fato_vendas''
       (make_candidate A ''fato_vendas'' ''dim_cliente'' ''id_cliente'' ''id_pattern'') rels"
  by (simp_all add: column_step_def example_lower example_pattern_matches
        scenario_pattern_step_self scenario_pattern_step_cliente)

lemma scenario_relationships:
  "find_implicit_relationships (scenario_analyzer ex) =
     [(''fato_vendas'',
       [make_candidate (scenario_analyzer ex) ''fato_vendas'' ''dim_cliente'' ''id_cliente''
          ''id_pattern''])]"
proof -
  have md: "metadata (scenario_analyzer ex) = scenario_tables"
    by (simp add: scenario_analyzer_def)
  have "fold (table_step (scenario_analyzer ex) (table_names_of scenario_tables)) scenario_tables [] =
     [(''fato_vendas'',
       [make_candidate (scenario_analyzer ex) ''fato_vendas'' ''dim_cliente'' ''id_cliente''
          ''id_pattern''])]"
    by (subst (2) scenario_tables_def) (simp add: table_step_def scenario_column_steps)
  then show ?thesis
    by (simp only: find_implicit_relationships_def md)
qed

lemma collision_column_steps:
  "column_step A (table_names_of collision_tables) src
     \<lparr>name = ''nome'', foreign_keys = {}\<rparr> rels = rels"
  "column_step A (table_names_of collision_tables) ''fato_vendas''
     \<lparr>name = ''id_cliente'', foreign_keys = {}\<rparr> rels =
     dd_append ''fato_vendas''
       (make_candidate A ''fato_vendas'' ''tb_cliente'' ''id_cliente'' ''id_pattern'') rels"
  by (simp_all add: column_step_def example_lower example_pattern_matches pattern_step_def
        example_variations variation_step_def collision_table_names)

lemma collision_relationships:
  "find_implicit_relationships collision_analyzer =
     [(''fato_vendas'',
       [make_candidate collision_analyzer ''fato_vendas'' ''tb_cliente'' ''id_cliente''
          ''id_pattern''])]"
proof -
  have md: "metadata collision_analyzer = collision_tables"
    by (simp add: collision_analyzer_def)
  have "fold (table_step collision_analyzer (table_names_of collision_tables)) collision_tables [] =
     [(''fato_vendas'',
       [make_candidate collision_analyzer ''fato_vendas'' ''tb_cliente'' ''id_cliente''
          ''id_pattern''])]"
    by (subst (2) collision_tables_def) (simp add: table_step_def collision_column_steps)
  then show ?thesis
    by (simp only: find_implicit_relationships_def md)
qed

section \<open>Candidates and their confidence\<close>

lemma in_candidates_of_iff:
  "c \<in> set (candidates_of rels k) \<longleftrightarrow> (\<exists>vs. (k, vs) \<in> set rels \<and> c \<in> set vs)"
  unfolding candidates_of_def by force

lemma find_entryE:
  assumes "(k, vs) \<in> set (find_implicit_relationships self)" and "c \<in> set vs"
  obtains cols col pat part var tgt where
    "(k, cols) \<in> set (metadata self)" "col \<in> set cols" "foreign_keys col = {}"
    "(pat, part) \<in> set (pattern_matches (py_lower (name col)))"
    "var \<in> set (variations_iter part)"
    "table_names_of (metadata self) var = Some tgt" "tgt \<noteq> k"
    "c = make_candidate self k tgt (py_lower (name col)) pat"
proof -
  have "c \<in> set (candidates_of (find_implicit_relationships self) k)"
    using assms in_candidates_of_iff by fastforce
  then show ?thesis
    unfolding find_candidates_iff using that by blast
qed

lemma find_entryI:
  assumes "(k, cols) \<in> set (metadata self)" and "col \<in> set cols" and "foreign_keys col = {}"
    and "(pat, part) \<in> set (pattern_matches (py_lower (name col)))"
    and "var \<in> set (variations_iter part)"
    and "table_names_of (metadata self) var = Some tgt" and "tgt \<noteq> k"
  obtains vs where "(k, vs) \<in> set (find_implicit_relationships self)"
    and "make_candidate self k tgt (py_lower (name col)) pat \<in> set vs"
proof -
  have "make_candidate self k tgt (py_lower (name col)) pat
          \<in> set (candidates_of (find_implicit_relationships self) k)"
    unfolding find_candidates_iff using assms by blast
  then show ?thesis
    unfolding in_candidates_of_iff using that by blast
qed

lemma make_candidate_fields:
  "source_column (make_candidate self k tgt col pat) = col"
  "target_table (make_candidate self k tgt col pat) = tgt"
  "pattern_matched (make_candidate self k tgt col pat) = pat"
  "confidence (make_candidate self k tgt col pat) =
     calculate_relationship_confidence self k tgt col pat"
  "suggested_relationship (make_candidate self k tgt col pat) =
     k @ ''.'' @ col @ '' -> '' @ tgt @ ''.id''"
  by (simp_all add: make_candidate_def)

lemma pattern_matches_names:
  assumes "(pat, part) \<in> set (pattern_matches col)"
  shows "pat \<in> {''id_pattern'', ''fk_pattern'', ''table_id_pattern'', ''ref_pattern'',
                  ''cod_pattern'', ''num_pattern''}"
proof -
  have "fst ` set (pattern_matches col) \<subseteq> fst ` set relation_patterns"
    unfolding pattern_matches_def List.map_filter_def by force
  then have "pat \<in> fst ` set relation_patterns" using assms by force
  then show ?thesis by (simp add: relation_patterns_def)
qed

lemma base_confidence_table:
  "base_confidence ''id_pattern'' = 0.8" "base_confidence ''fk_pattern'' = 0.9"
  "base_confidence ''table_id_pattern'' = 0.85" "base_confidence ''ref_pattern'' = 0.7"
  "base_confidence ''cod_pattern'' = 0.6" "base_confidence ''num_pattern'' = 0.5"
  by (simp_all add: base_confidence_def pattern_confidence_def)

lemma base_confidence_range: "0 < base_confidence p \<and> base_confidence p \<le> 1"
  by (simp add: base_confidence_def pattern_confidence_def)

lemma calculate_relationship_confidence_eq:
  "calculate_relationship_confidence self src tgt col p =
     min 1 (base_confidence p + (if sampler_confirms self src tgt col then 0.2 else 0))"
  by (simp add: calculate_relationship_confidence_def sample_overlap_def sampler_confirms_def
        split: sum.splits option.splits)

lemma calculate_relationship_confidence_failed:
  "engine_execute self (overlap_query src tgt col) = Inl e \<Longrightarrow>
     calculate_relationship_confidence self src tgt col p = base_confidence p"
  using base_confidence_range [of p]
  by (simp add: calculate_relationship_confidence_eq sampler_confirms_def)

lemma scenario_confirmed:
  "make_candidate (scenario_analyzer confirming_engine) ''fato_vendas'' ''dim_cliente''
     ''id_cliente'' ''id_pattern'' = scenario_candidate 1"
  by (simp add: make_candidate_def scenario_candidate_def calculate_relationship_confidence_eq
        sampler_confirms_def scenario_analyzer_def confirming_engine_def base_confidence_table)

lemma scenario_failed:
  "make_candidate (scenario_analyzer failing_engine) ''fato_vendas'' ''dim_cliente''
     ''id_cliente'' ''id_pattern'' = scenario_candidate 0.8"
  by (simp add: make_candidate_def scenario_candidate_def calculate_relationship_confidence_eq
        sampler_confirms_def scenario_analyzer_def failing_engine_def base_confidence_table)

lemma scenario_analyzer_fields:
  "metadata (scenario_analyzer ex) = scenario_tables"
  "engine_execute (scenario_analyzer ex) = ex"
  by (simp_all add: scenario_analyzer_def)

lemma scenario_report:
  "find_implicit_relationships (scenario_analyzer confirming_engine) =
     [(''fato_vendas'', [scenario_candidate 1])]"
  "find_implicit_relationships (scenario_analyzer failing_engine) =
     [(''fato_vendas'', [scenario_candidate 0.8])]"
  by (simp_all only: scenario_relationships scenario_confirmed scenario_failed)

lemma table_names_of_SomeD:
  "table_names_of tables k = Some nm \<Longrightarrow> normalize_table_name nm = k"
  unfolding table_names_of_lookup find_Some_iff by blast

section \<open>Properties of the inferred relationships\<close>

text \<open>
  C1 (amended). In a catalog whose table \<open>fato_vendas\<close> has a column \<open>id_cliente\<close>
  without declared foreign key, \<open>find_implicit_relationships\<close> lists for
  \<open>fato_vendas\<close> a candidate with pattern \<open>id_pattern\<close> and target \<open>dim_cliente\<close>
  exactly when the index of normalized table names keeps \<open>dim_cliente\<close> for the token
  \<open>cliente\<close>, that is, when \<open>dim_cliente\<close> is the last table of the catalog whose name
  normalizes to \<open>cliente\<close>. The candidate of that column then has confidence 0.8, and
  exactly 1 when the sampler confirms an overlap.
\<close>

theorem scenario_A:
  assumes "(''fato_vendas'', cols) \<in> set (metadata self)"
    and "col \<in> set cols" and "name col = ''id_cliente''" and "foreign_keys col = {}"
  shows "((\<exists>rels c. (''fato_vendas'', rels) \<in> set (find_implicit_relationships self) \<and> c \<in> set rels
             \<and> pattern_matched c = ''id_pattern'' \<and> target_table c = ''dim_cliente'')
          \<longleftrightarrow> table_names_of (metadata self) ''cliente'' = Some ''dim_cliente'')
       \<and> (table_names_of (metadata self) ''cliente'' = Some ''dim_cliente'' \<longrightarrow>
            (\<exists>rels c. (''fato_vendas'', rels) \<in> set (find_implicit_relationships self) \<and> c \<in> set rels
               \<and> source_column c = ''id_cliente'' \<and> pattern_matched c = ''id_pattern''
               \<and> target_table c = ''dim_cliente'' \<and> 0.8 \<le> confidence c
               \<and> confidence c =
                   (if sampler_confirms self ''fato_vendas'' ''dim_cliente'' ''id_cliente''
                    then 1 else 0.8)))"
proof -
  let ?c = "make_candidate self ''fato_vendas'' ''dim_cliente'' ''id_cliente'' ''id_pattern''"
  let ?full = "\<exists>rels c. (''fato_vendas'', rels) \<in> set (find_implicit_relationships self) \<and> c \<in> set rels
               \<and> source_column c = ''id_cliente'' \<and> pattern_matched c = ''id_pattern''
               \<and> target_table c = ''dim_cliente'' \<and> 0.8 \<le> confidence c
               \<and> confidence c =
                   (if sampler_confirms self ''fato_vendas'' ''dim_cliente'' ''id_cliente''
                    then 1 else 0.8)"
  have conf: "confidence ?c =
      (if sampler_confirms self ''fato_vendas'' ''dim_cliente'' ''id_cliente'' then 1 else 0.8)"
    by (simp add: make_candidate_fields calculate_relationship_confidence_eq base_confidence_table)
  have lo: "0.8 \<le> confidence ?c" unfolding conf by simp
  have fields: "source_column ?c = ''id_cliente''" "pattern_matched ?c = ''id_pattern''"
    "target_table ?c = ''dim_cliente''"
    by (simp_all add: make_candidate_fields)
  have low: "py_lower (name col) = ''id_cliente''"
    by (simp add: assms(3) example_lower)
  have pm: "(''id_pattern'', ''cliente'') \<in> set (pattern_matches (py_lower (name col)))"
    by (simp add: low example_pattern_matches)
  have var: "''cliente'' \<in> set (variations_iter ''cliente'')"
    by (simp add: example_variations)
  have ne: "''dim_cliente'' \<noteq> ''fato_vendas''" by simp
  have right: ?full if tn: "table_names_of (metadata self) ''cliente'' = Some ''dim_cliente''"
  proof -
    obtain rels where "(''fato_vendas'', rels) \<in> set (find_implicit_relationships self)"
      and "?c \<in> set rels"
      using find_entryI [OF assms(1,2,4) pm var tn ne] unfolding low by blast
    then show ?thesis using fields lo conf by blast
  qed
  have left: "table_names_of (metadata self) ''cliente'' = Some ''dim_cliente''"
    if "\<exists>rels c. (''fato_vendas'', rels) \<in> set (find_implicit_relationships self) \<and> c \<in> set rels
             \<and> pattern_matched c = ''id_pattern'' \<and> target_table c = ''dim_cliente''"
  proof -
    from that obtain rels c where r: "(''fato_vendas'', rels) \<in> set (find_implicit_relationships self)"
      "c \<in> set rels" and t: "target_table c = ''dim_cliente''"
      by blast
    from r obtain v tgt k p where tn: "table_names_of (metadata self) v = Some tgt"
      and c: "c = make_candidate self ''fato_vendas'' tgt k p"
      by (elim find_entryE) blast
    have "tgt = ''dim_cliente''" using t by (simp add: c make_candidate_fields)
    then have tn': "table_names_of (metadata self) v = Some ''dim_cliente''" using tn by simp
    have "normalize_table_name ''dim_cliente'' = v" using tn' by (rule table_names_of_SomeD)
    then have "v = ''cliente''" by (simp add: example_normalized)
    then show ?thesis using tn' by simp
  qed
  have "?full \<Longrightarrow> \<exists>rels c. (''fato_vendas'', rels) \<in> set (find_implicit_relationships self) \<and> c \<in> set rels
             \<and> pattern_matched c = ''id_pattern'' \<and> target_table c = ''dim_cliente''"
    by blast
  then show ?thesis using left right by blast
qed

theorem scenario_A_witness:
  "(''fato_vendas'', [\<lparr>name = ''id_venda'', foreign_keys = {}\<rparr>,
                      \<lparr>name = ''id_cliente'', foreign_keys = {}\<rparr>,
                      \<lparr>name = ''id_loja'', foreign_keys = {''dim_loja.id_loja''}\<rparr>])
     \<in> set (metadata (scenario_analyzer confirming_engine))
   \<and> table_names_of (metadata (scenario_analyzer confirming_engine)) ''cliente'' = Some ''dim_cliente''
   \<and> sampler_confirms (scenario_analyzer confirming_engine) ''fato_vendas'' ''dim_cliente'' ''id_cliente''
   \<and> (''fato_vendas'', [scenario_candidate 1])
       \<in> set (find_implicit_relationships (scenario_analyzer confirming_engine))
   \<and> pattern_matched (scenario_candidate 1) = ''id_pattern''
   \<and> target_table (scenario_candidate 1) = ''dim_cliente''
   \<and> confidence (scenario_candidate 1) = 1"
proof -
  let ?A = "scenario_analyzer confirming_engine"
  let ?col = "\<lparr>name = ''id_cliente'', foreign_keys = {}\<rparr>"
  let ?cols = "[\<lparr>name = ''id_venda'', foreign_keys = {}\<rparr>, ?col,
                \<lparr>name = ''id_loja'', foreign_keys = {''dim_loja.id_loja''}\<rparr>]"
  have md: "metadata ?A = scenario_tables" by (simp add: scenario_analyzer_def)
  have h1: "(''fato_vendas'', ?cols) \<in> set (metadata ?A)"
    unfolding md by (simp add: scenario_tables_def)
  have h2: "?col \<in> set ?cols" by simp
  have h3: "name ?col = ''id_cliente''" by simp
  have h4: "foreign_keys ?col = {}" by simp
  have tn: "table_names_of (metadata ?A) ''cliente'' = Some ''dim_cliente''"
    unfolding md by (rule scenario_table_names(1))
  have sc: "sampler_confirms ?A ''fato_vendas'' ''dim_cliente'' ''id_cliente''"
    by (simp add: sampler_confirms_def scenario_analyzer_def confirming_engine_def)
  note scenario_A [OF h1 h2 h3 h4]
  then show ?thesis
    using h1 tn sc by (simp add: scenario_report scenario_candidate_def)
qed

text \<open>C1 as stated fails in a catalog where a later table normalizes to the same token:
  with \<open>tb_cliente\<close> after \<open>dim_cliente\<close> the column \<open>id_cliente\<close> of \<open>fato_vendas\<close>
  is resolved to \<open>tb_cliente\<close>, and no candidate has the target \<open>dim_cliente\<close>.\<close>

theorem scenario_A_collision:
  "(''fato_vendas'', [\<lparr>name = ''id_cliente'', foreign_keys = {}\<rparr>]) \<in> set (metadata collision_analyzer)
   \<and> ''dim_cliente'' \<in> fst ` set (metadata collision_analyzer)
   \<and> target_table ` set (candidates_of (find_implicit_relationships collision_analyzer) ''fato_vendas'')
       = {''tb_cliente''}
   \<and> ''dim_cliente'' \<notin> target_table `
         set (candidates_of (find_implicit_relationships collision_analyzer) ''fato_vendas'')"
  by (simp add: collision_relationships candidates_of_Cons candidates_of_Nil make_candidate_fields)
     (simp add: collision_analyzer_def collision_tables_def)

lemma column_step_declared_fk:
  "foreign_keys col \<noteq> {} \<Longrightarrow> column_step self tn src col rels = rels"
  by (simp add: column_step_def)

lemma fold_filter_neutral:
  assumes "\<And>x s. \<not> P x \<Longrightarrow> f x s = s"
  shows "fold f (filter P xs) s = fold f xs s"
  by (induction xs arbitrary: s) (simp_all add: assms)

lemma fold_table_step_drop:
  "fold (table_step self tn) (drop_declared_fk tables) rels = fold (table_step self tn) tables rels"
proof (induction tables arbitrary: rels)
  case Nil
  show ?case by (simp add: drop_declared_fk_def)
next
  case (Cons t tables)
  have "table_step self tn (fst t, filter (\<lambda>c. foreign_keys c = {}) (snd t)) rels =
        table_step self tn t rels"
    unfolding table_step_def fst_conv snd_conv
    by (rule fold_filter_neutral) (simp add: column_step_declared_fk)
  then show ?case
    using Cons.IH by (simp add: drop_declared_fk_def)
qed

lemma table_names_of_drop: "table_names_of (drop_declared_fk tables) = table_names_of tables"
  by (simp add: table_names_of_def drop_declared_fk_def comp_def)

lemma make_candidate_metadata:
  "make_candidate (self\<lparr>metadata := m\<rparr>) k tgt col pat = make_candidate self k tgt col pat"
  by (simp add: make_candidate_def calculate_relationship_confidence_def sample_overlap_def)

lemma table_step_metadata:
  "table_step (self\<lparr>metadata := m\<rparr>) = table_step self"
proof -
  have v: "variation_step (self\<lparr>metadata := m\<rparr>) tn k col pat = variation_step self tn k col pat"
    for tn k col pat
    by (simp add: fun_eq_iff variation_step_def make_candidate_metadata split: option.splits)
  have p: "pattern_step (self\<lparr>metadata := m\<rparr>) tn k col = pattern_step self tn k col"
    for tn k col
    by (simp add: fun_eq_iff pattern_step_def v)
  have c: "column_step (self\<lparr>metadata := m\<rparr>) tn k = column_step self tn k" for tn k
    by (simp add: fun_eq_iff column_step_def Let_def p cong: if_cong)
  show ?thesis
    by (simp add: fun_eq_iff table_step_def c)
qed

text \<open>
  C2. A column that carries a declared foreign key is never the source of a candidate:
  the result is the same as for the catalog without those columns; the source column of
  every candidate is (the lower-cased name of) a column of its source table that has no
  declared foreign key; and where the tables of the catalog have distinct names and no
  other column of the table has the same lower-cased name, the name of a column with a
  declared foreign key is not the source column of any candidate of its table.
\<close>

theorem declared_fk_never_source:
  "find_implicit_relationships (self\<lparr>metadata := drop_declared_fk (metadata self)\<rparr>) =
     find_implicit_relationships self
   \<and> (\<forall>src rels c.
         (src, rels) \<in> set (find_implicit_relationships self) \<and> c \<in> set rels \<longrightarrow>
         (\<exists>cols col. (src, cols) \<in> set (metadata self) \<and> col \<in> set cols
            \<and> foreign_keys col = {} \<and> source_column c = py_lower (name col)))
   \<and> (\<forall>src cols col.
         distinct (map fst (metadata self)) \<and> (src, cols) \<in> set (metadata self)
         \<and> col \<in> set cols \<and> foreign_keys col \<noteq> {}
         \<and> (\<forall>col'\<in>set cols. py_lower (name col') = py_lower (name col) \<longrightarrow> col' = col)
         \<longrightarrow> py_lower (name col) \<notin>
               source_column ` set (candidates_of (find_implicit_relationships self) src))"
proof -
  have ts: "table_step (self\<lparr>metadata := drop_declared_fk (metadata self)\<rparr>) = table_step self"
    by (rule table_step_metadata)
  have a: "find_implicit_relationships (self\<lparr>metadata := drop_declared_fk (metadata self)\<rparr>) =
     find_implicit_relationships self"
    by (simp add: find_implicit_relationships_def ts table_names_of_drop fold_table_step_drop)
  have b: "\<exists>cols col. (src, cols) \<in> set (metadata self) \<and> col \<in> set cols
            \<and> foreign_keys col = {} \<and> source_column c = py_lower (name col)"
    if "(src, rels) \<in> set (find_implicit_relationships self)" "c \<in> set rels" for src rels c
  proof -
    from that obtain cols col tgt pat where
      h: "(src, cols) \<in> set (metadata self)" "col \<in> set cols" "foreign_keys col = {}" and
      c: "c = make_candidate self src tgt (py_lower (name col)) pat"
      by (elim find_entryE) blast
    have "source_column c = py_lower (name col)" by (simp add: c make_candidate_fields)
    then show ?thesis using h by blast
  qed
  have c: "py_lower (name col) \<notin>
             source_column ` set (candidates_of (find_implicit_relationships self) src)"
    if d: "distinct (map fst (metadata self))" and t: "(src, cols) \<in> set (metadata self)"
      and k: "col \<in> set cols" and fk: "foreign_keys col \<noteq> {}"
      and u: "\<forall>col'\<in>set cols. py_lower (name col') = py_lower (name col) \<longrightarrow> col' = col"
    for src cols col
  proof
    assume "py_lower (name col) \<in>
              source_column ` set (candidates_of (find_implicit_relationships self) src)"
    then obtain x where x: "x \<in> set (candidates_of (find_implicit_relationships self) src)"
      and sx: "source_column x = py_lower (name col)"
      by force
    from x obtain rels where "(src, rels) \<in> set (find_implicit_relationships self)" "x \<in> set rels"
      unfolding in_candidates_of_iff by blast
    then obtain cols' col' where t': "(src, cols') \<in> set (metadata self)"
      and k': "col' \<in> set cols'" and nofk: "foreign_keys col' = {}"
      and sx': "source_column x = py_lower (name col')"
      using b by blast
    have "cols' = cols" using d t' t by (rule eq_key_imp_eq_value)
    then have "col' = col" using k' u sx sx' by simp
    then show False using nofk fk by simp
  qed
  show ?thesis using a b c by blast
qed

theorem declared_fk_never_source_witness:
  "distinct (map fst (metadata (scenario_analyzer confirming_engine)))
   \<and> foreign_keys \<lparr>name = ''id_loja'', foreign_keys = {''dim_loja.id_loja''}\<rparr> \<noteq> {}
   \<and> pattern_matches ''id_loja'' = [(''id_pattern'', ''loja'')]
   \<and> find_implicit_relationships
        ((scenario_analyzer confirming_engine)
           \<lparr>metadata := drop_declared_fk (metadata (scenario_analyzer confirming_engine))\<rparr>)
       = [(''fato_vendas'', [scenario_candidate 1])]
   \<and> find_implicit_relationships (scenario_analyzer confirming_engine)
       = [(''fato_vendas'', [scenario_candidate 1])]
   \<and> source_column (scenario_candidate 1) = ''id_cliente''
   \<and> ''id_loja'' \<notin> source_column `
         set (candidates_of (find_implicit_relationships (scenario_analyzer confirming_engine))
                ''fato_vendas'')"
proof -
  let ?A = "scenario_analyzer confirming_engine"
  let ?col = "\<lparr>name = ''id_loja'', foreign_keys = {''dim_loja.id_loja''}\<rparr>"
  let ?cols = "[\<lparr>name = ''id_venda'', foreign_keys = {}\<rparr>,
                \<lparr>name = ''id_cliente'', foreign_keys = {}\<rparr>, ?col]"
  note t = declared_fk_never_source [of ?A]
  have d: "distinct (map fst (metadata ?A))"
    by (simp add: scenario_analyzer_fields scenario_tables_def)
  have m: "(''fato_vendas'', ?cols) \<in> set (metadata ?A)"
    by (simp add: scenario_analyzer_fields scenario_tables_def)
  have u: "\<forall>col'\<in>set ?cols. py_lower (name col') = py_lower (name ?col) \<longrightarrow> col' = ?col"
    by (simp add: example_lower)
  have "py_lower (name ?col) \<notin>
          source_column ` set (candidates_of (find_implicit_relationships ?A) ''fato_vendas'')"
    using t d m u by (elim conjE allE [of _ "''fato_vendas''"] allE [of _ ?cols] allE [of _ ?col])
      simp
  then have n: "''id_loja'' \<notin>
          source_column ` set (candidates_of (find_implicit_relationships ?A) ''fato_vendas'')"
    by (simp add: example_lower)
  have e: "find_implicit_relationships (?A\<lparr>metadata := drop_declared_fk (metadata ?A)\<rparr>) =
        find_implicit_relationships ?A"
    using t by blast
  show ?thesis
    using d n unfolding e
    by (simp add: scenario_report example_pattern_matches scenario_candidate_def)
qed

text \<open>
  C3. No candidate has its source table as its target table: under every key of the
  result, every candidate's target table differs from the key.
\<close>

theorem no_self_reference:
  assumes "(src, rels) \<in> set (find_implicit_relationships self)" and "c \<in> set rels"
  shows "target_table c \<noteq> src"
proof -
  from assms obtain tgt col pat where "tgt \<noteq> src" and "c = make_candidate self src tgt col pat"
    by (elim find_entryE) blast
  then show ?thesis by (simp add: make_candidate_fields)
qed

theorem no_self_reference_witness:
  "(''fato_vendas'', [scenario_candidate 1])
     \<in> set (find_implicit_relationships (scenario_analyzer confirming_engine))
   \<and> scenario_candidate 1 \<in> set [scenario_candidate 1]
   \<and> target_table (scenario_candidate 1) \<noteq> ''fato_vendas''"
  using no_self_reference [of "''fato_vendas''" "[scenario_candidate 1]"
      "scenario_analyzer confirming_engine" "scenario_candidate 1"]
  by (simp add: scenario_report)

text \<open>
  C6. The confidence of every candidate is \<open>min 1 (base + bonus)\<close>, where the base is the
  weight of the matched pattern (one of the six of the table) and the bonus is 0.2 when
  the sampler confirms an overlap and 0 otherwise; it lies between 0 and 1.
\<close>

theorem confidence_formula:
  assumes "(src, rels) \<in> set (find_implicit_relationships self)" and "c \<in> set rels"
  shows "confidence c = min 1 (base_confidence (pattern_matched c) + overlap_bonus self src c)
         \<and> 0 \<le> confidence c \<and> confidence c \<le> 1
         \<and> (pattern_matched c, base_confidence (pattern_matched c)) \<in>
             {(''id_pattern'', 0.8), (''fk_pattern'', 0.9), (''table_id_pattern'', 0.85),
              (''ref_pattern'', 0.7), (''cod_pattern'', 0.6), (''num_pattern'', 0.5)}"
proof -
  from assms obtain tgt col pat part where
    pm: "(pat, part) \<in> set (pattern_matches col)" and
    c: "c = make_candidate self src tgt col pat"
    by (elim find_entryE) blast
  have eq: "confidence c = min 1 (base_confidence (pattern_matched c) + overlap_bonus self src c)"
    by (simp add: c make_candidate_fields calculate_relationship_confidence_eq overlap_bonus_def)
  have rng: "0 < base_confidence (pattern_matched c)" by (simp add: base_confidence_range)
  have "0 \<le> overlap_bonus self src c" by (simp add: overlap_bonus_def)
  then have lo: "0 \<le> confidence c" using rng unfolding eq by simp
  have hi: "confidence c \<le> 1" unfolding eq by simp
  have p: "pattern_matched c = pat" by (simp add: c make_candidate_fields)
  have "pat \<in> {''id_pattern'', ''fk_pattern'', ''table_id_pattern'', ''ref_pattern'',
                 ''cod_pattern'', ''num_pattern''}"
    using pm by (rule pattern_matches_names)
  then have tab: "(pattern_matched c, base_confidence (pattern_matched c)) \<in>
             {(''id_pattern'', 0.8), (''fk_pattern'', 0.9), (''table_id_pattern'', 0.85),
              (''ref_pattern'', 0.7), (''cod_pattern'', 0.6), (''num_pattern'', 0.5)}"
    unfolding p using base_confidence_table by (elim insertE emptyE) simp_all
  show ?thesis using eq lo hi tab by blast
qed

theorem confidence_formula_witness:
  "(''fato_vendas'', [scenario_candidate 1])
     \<in> set (find_implicit_relationships (scenario_analyzer confirming_engine))
   \<and> scenario_candidate 1 \<in> set [scenario_candidate 1]
   \<and> overlap_bonus (scenario_analyzer confirming_engine) ''fato_vendas'' (scenario_candidate 1) = 0.2
   \<and> base_confidence (pattern_matched (scenario_candidate 1)) = 0.8
   \<and> confidence (scenario_candidate 1) = 1"
  using confidence_formula [of "''fato_vendas''" "[scenario_candidate 1]"
      "scenario_analyzer confirming_engine" "scenario_candidate 1"]
  by (simp add: scenario_report scenario_candidate_def overlap_bonus_def sampler_confirms_def
        scenario_analyzer_fields confirming_engine_def base_confidence_table)

section \<open>Failures\<close>

lemma run_analysis_ok:
  assumes "create_engine_error db = None" and "reflect db = Inr md" and "inspect_error db = None"
  shows "run_analysis db u =
           Inr (analyze_and_suggest_relationships
                  \<lparr>url = u, metadata = md, engine_execute = execute db\<rparr>)"
  using assms by (simp add: run_analysis_def init_def get_all_metadata_def)

lemma relationships_analyze:
  "relationships (analyze_and_suggest_relationships self) = find_implicit_relationships self"
  by (simp add: analyze_and_suggest_relationships_def Let_def)

text \<open>
  C7. When the analyzer is constructed and the sampler's query fails for a candidate,
  the run still returns a report, and the report lists that candidate for its source
  table with exactly the base weight of its pattern as confidence. The candidate is
  taken from the run of the same catalog under any sampler, so that it is the failure
  alone that decides its confidence.
\<close>

theorem sampler_failure_keeps_base:
  assumes "create_engine_error db = None" and "reflect db = Inr md"
    and "inspect_error db = None"
    and "(src, rels) \<in> set (find_implicit_relationships
            \<lparr>url = u', metadata = md, engine_execute = ex\<rparr>)"
    and "c \<in> set rels"
    and "execute db (overlap_query src (target_table c) (source_column c)) = Inl e"
  shows "\<exists>report rels'. run_analysis db u = Inr report
           \<and> (src, rels') \<in> set (relationships report)
           \<and> c\<lparr>confidence := base_confidence (pattern_matched c)\<rparr> \<in> set rels'"
proof -
  let ?A = "\<lparr>url = u', metadata = md, engine_execute = ex\<rparr>"
  let ?B = "\<lparr>url = u, metadata = md, engine_execute = execute db\<rparr>"
  from assms(4,5) obtain cols col pat part var tgt where
    h0: "(src, cols) \<in> set (metadata ?A)" "col \<in> set cols" "foreign_keys col = {}"
       "(pat, part) \<in> set (pattern_matches (py_lower (name col)))"
       "var \<in> set (variations_iter part)"
       "table_names_of (metadata ?A) var = Some tgt" "tgt \<noteq> src" and
    c: "c = make_candidate ?A src tgt (py_lower (name col)) pat"
    by (elim find_entryE) blast
  have h: "(src, cols) \<in> set (metadata ?B)" "table_names_of (metadata ?B) var = Some tgt"
    using h0(1,6) by simp_all
  have fail: "engine_execute ?B (overlap_query src tgt (py_lower (name col))) = Inl e"
    using assms(6) by (simp add: c make_candidate_fields)
  have eq: "make_candidate ?B src tgt (py_lower (name col)) pat =
              c\<lparr>confidence := base_confidence (pattern_matched c)\<rparr>"
    using calculate_relationship_confidence_failed [OF fail, of pat]
    by (simp add: c make_candidate_def)
  obtain rels' where "(src, rels') \<in> set (find_implicit_relationships ?B)"
    and "make_candidate ?B src tgt (py_lower (name col)) pat \<in> set rels'"
    using find_entryI [OF h(1) h0(2,3,4,5) h(2) h0(7)] by blast
  then have "(src, rels') \<in> set (relationships (analyze_and_suggest_relationships ?B))"
    and "c\<lparr>confidence := base_confidence (pattern_matched c)\<rparr> \<in> set rels'"
    unfolding eq relationships_analyze by simp_all
  moreover have "run_analysis db u = Inr (analyze_and_suggest_relationships ?B)"
    using assms(1,2,3) by (rule run_analysis_ok)
  ultimately show ?thesis by blast
qed

theorem sampler_failure_keeps_base_witness:
  "create_engine_error (scenario_db failing_engine) = None
   \<and> reflect (scenario_db failing_engine) = Inr scenario_tables
   \<and> inspect_error (scenario_db failing_engine) = None
   \<and> (''fato_vendas'', [scenario_candidate 1])
       \<in> set (find_implicit_relationships
                \<lparr>url = ''sqlite://'', metadata = scenario_tables, engine_execute = confirming_engine\<rparr>)
   \<and> execute (scenario_db failing_engine)
       (overlap_query ''fato_vendas'' (target_table (scenario_candidate 1))
          (source_column (scenario_candidate 1))) = Inl SQLAlchemyError
   \<and> base_confidence (pattern_matched (scenario_candidate 1)) = 0.8
   \<and> (\<exists>report rels'. run_analysis (scenario_db failing_engine) ''sqlite://'' = Inr report
         \<and> (''fato_vendas'', rels') \<in> set (relationships report)
         \<and> scenario_candidate 0.8 \<in> set rels')"
proof -
  let ?db = "scenario_db failing_engine"
  have h1: "create_engine_error ?db = None" and h2: "reflect ?db = Inr scenario_tables"
    and h3: "inspect_error ?db = None"
    by (simp_all add: scenario_db_def)
  have h4: "(''fato_vendas'', [scenario_candidate 1])
       \<in> set (find_implicit_relationships
                \<lparr>url = ''sqlite://'', metadata = scenario_tables, engine_execute = confirming_engine\<rparr>)"
    using scenario_report(1) by (simp add: scenario_analyzer_def)
  have h5: "scenario_candidate 1 \<in> set [scenario_candidate 1]" by simp
  have h6: "execute ?db (overlap_query ''fato_vendas'' (target_table (scenario_candidate 1))
          (source_column (scenario_candidate 1))) = Inl SQLAlchemyError"
    by (simp add: scenario_db_def failing_engine_def)
  have b: "base_confidence (pattern_matched (scenario_candidate 1)) = 0.8"
    by (simp add: scenario_candidate_def base_confidence_table)
  have upd: "(scenario_candidate 1)\<lparr>confidence := 0.8\<rparr> = scenario_candidate 0.8"
    by (simp add: scenario_candidate_def)
  note sampler_failure_keeps_base [OF h1 h2 h3 h4 h5 h6, of "''sqlite://''"]
  then have "\<exists>report rels'. run_analysis ?db ''sqlite://'' = Inr report
         \<and> (''fato_vendas'', rels') \<in> set (relationships report)
         \<and> scenario_candidate 0.8 \<in> set rels'"
    unfolding b upd .
  then show ?thesis using h1 h2 h3 h4 h6 b by blast
qed

text \<open>
  C8. When the reflection of the catalog fails, the run ends with an exception and
  returns no report. The exception that leaves is the \<open>AttributeError\<close> of the handler
  (the logger does not exist yet), unless \<open>create_engine\<close> has raised before.
\<close>

theorem catalog_failure_is_fatal:
  assumes "reflect db = Inl e"
  shows "(\<exists>e'. run_analysis db u = Inl e')
         \<and> (\<forall>report. run_analysis db u \<noteq> Inr report)
         \<and> (create_engine_error db = None \<longrightarrow> run_analysis db u = Inl AttributeError)"
  using assms
  by (simp add: run_analysis_def init_def get_all_metadata_def split: option.splits)

theorem catalog_failure_is_fatal_witness:
  "reflect unreachable_db = Inl SQLAlchemyError
   \<and> create_engine_error unreachable_db = None
   \<and> run_analysis unreachable_db ''sqlite://'' = Inl AttributeError"
  using catalog_failure_is_fatal [of unreachable_db SQLAlchemyError "''sqlite://''"]
  by (simp add: unreachable_db_def)

section \<open>The report and its statistics\<close>

lemma candidates_of_absent: "k \<notin> fst ` set rels \<Longrightarrow> candidates_of rels k = []"
proof -
  assume "k \<notin> fst ` set rels"
  then have "filter (\<lambda>kv. fst kv = k) rels = []"
    by (auto simp: filter_empty_conv)
  then show ?thesis by (simp add: candidates_of_def)
qed

lemma candidates_of_entry:
  "distinct (map fst rels) \<Longrightarrow> (k, vs) \<in> set rels \<Longrightarrow> candidates_of rels k = vs"
proof (induction rels)
  case Nil
  then show ?case by simp
next
  case (Cons kv rels)
  obtain k' vs' where kv: "kv = (k', vs')" by (cases kv)
  have d: "distinct (map fst rels)" and n: "k' \<notin> fst ` set rels"
    using Cons.prems(1) by (simp_all add: kv)
  show ?case
  proof (cases "(k, vs) = (k', vs')")
    case True
    then have "candidates_of rels k = []" using n by (simp add: candidates_of_absent)
    then show ?thesis using True by (simp add: kv candidates_of_Cons)
  next
    case False
    then have m: "(k, vs) \<in> set rels" using Cons.prems(2) unfolding kv by auto
    then have "k \<in> fst ` set rels" by force
    then have "k' \<noteq> k" using n by blast
    then show ?thesis using Cons.IH [OF d m] by (simp add: kv candidates_of_Cons)
  qed
qed

lemma sum_list_by_key:
  assumes "distinct (map fst rels)" and "finite T" and "fst ` set rels \<subseteq> T" and "g [] = (0::nat)"
  shows "sum_list (map (\<lambda>kv. g (snd kv)) rels) = (\<Sum>k\<in>T. g (candidates_of rels k))"
proof -
  have e: "map (\<lambda>kv. g (snd kv)) rels = map (\<lambda>k. g (candidates_of rels k)) (map fst rels)"
  proof -
    have "g (snd kv) = g (candidates_of rels (fst kv))" if "kv \<in> set rels" for kv
      using candidates_of_entry [OF assms(1), of "fst kv" "snd kv"] that by simp
    then show ?thesis by simp
  qed
  have "sum_list (map (\<lambda>kv. g (snd kv)) rels) =
          sum_list (map (\<lambda>k. g (candidates_of rels k)) (map fst rels))"
    by (simp only: e)
  also have "\<dots> = (\<Sum>k\<in>set (map fst rels). g (candidates_of rels k))"
    by (rule sum_list_distinct_conv_sum_set [OF assms(1)])
  also have "\<dots> = (\<Sum>k\<in>T. g (candidates_of rels k))"
  proof (rule sum.mono_neutral_left)
    show "finite T" by (rule assms(2))
    show "set (map fst rels) \<subseteq> T" using assms(3) by simp
    show "\<forall>i\<in>T - set (map fst rels). g (candidates_of rels i) = 0"
      by (simp add: candidates_of_absent assms(4))
  qed
  finally show ?thesis .
qed

lemma find_keys:
  "fst ` set (find_implicit_relationships self) \<subseteq> fst ` set (metadata self)"
proof
  fix k assume "k \<in> fst ` set (find_implicit_relationships self)"
  then obtain vs where kv: "(k, vs) \<in> set (find_implicit_relationships self)" by force
  have "vs \<noteq> []"
    using well_formed_find [of self] kv by (force simp: well_formed_def)
  then obtain c where "c \<in> set vs" by (cases vs) auto
  with kv obtain cols where "(k, cols) \<in> set (metadata self)"
    by (elim find_entryE) blast
  then show "k \<in> fst ` set (metadata self)" by force
qed

lemma keys_nonempty:
  assumes "well_formed rels"
  shows "fst ` set rels = {k. candidates_of rels k \<noteq> []}"
proof (intro set_eqI iffI)
  fix k assume "k \<in> fst ` set rels"
  then obtain vs where kv: "(k, vs) \<in> set rels" by force
  have "vs \<noteq> []" using assms kv by (force simp: well_formed_def)
  moreover have "candidates_of rels k = vs"
    using assms kv by (simp add: candidates_of_entry well_formed_def)
  ultimately show "k \<in> {k. candidates_of rels k \<noteq> []}" by simp
next
  fix k assume "k \<in> {k. candidates_of rels k \<noteq> []}"
  then show "k \<in> fst ` set rels" using candidates_of_absent by fastforce
qed

text \<open>
  C9. In the report, no source table is listed twice and none with an empty list; the
  total is the sum over the tables of the catalog of the number of candidates listed for
  the table; the high-confidence count is the same sum over the candidates with
  confidence at least 0.8, hence at most the total; and the number of tables with
  relations is the number of tables for which at least one candidate is listed.
\<close>

theorem statistics_consistent:
  "well_formed (relationships (analyze_and_suggest_relationships self))
   \<and> total_implicit_relationships (stats (analyze_and_suggest_relationships self)) =
       (\<Sum>t\<in>fst ` set (metadata self).
          length (candidates_of (relationships (analyze_and_suggest_relationships self)) t))
   \<and> high_confidence_relations (stats (analyze_and_suggest_relationships self)) =
       (\<Sum>t\<in>fst ` set (metadata self).
          length (filter (\<lambda>c. confidence c \<ge> 0.8)
                    (candidates_of (relationships (analyze_and_suggest_relationships self)) t)))
   \<and> high_confidence_relations (stats (analyze_and_suggest_relationships self))
       \<le> total_implicit_relationships (stats (analyze_and_suggest_relationships self))
   \<and> tables_with_implicit_relations (stats (analyze_and_suggest_relationships self)) =
       card {t. candidates_of (relationships (analyze_and_suggest_relationships self)) t \<noteq> []}
   \<and> {t. candidates_of (relationships (analyze_and_suggest_relationships self)) t \<noteq> []}
       \<subseteq> fst ` set (metadata self)"
proof -
  let ?rels = "find_implicit_relationships self"
  let ?T = "fst ` set (metadata self)"
  have wf: "well_formed ?rels" by (rule well_formed_find)
  then have d: "distinct (map fst ?rels)" by (simp add: well_formed_def)
  have fin: "finite ?T" by simp
  have sub: "fst ` set ?rels \<subseteq> ?T" by (rule find_keys)
  have total: "sum_list (map (\<lambda>kv. length (snd kv)) ?rels) =
                 (\<Sum>t\<in>?T. length (candidates_of ?rels t))"
    by (rule sum_list_by_key [OF d fin sub]) simp
  have "length (filter (\<lambda>c. confidence c \<ge> 0.8) (concat (map snd ?rels))) =
          sum_list (map (\<lambda>kv. length (filter (\<lambda>c. confidence c \<ge> 0.8) (snd kv))) ?rels)"
    by (simp add: filter_concat length_concat comp_def)
  also have "\<dots> = (\<Sum>t\<in>?T. length (filter (\<lambda>c. confidence c \<ge> 0.8) (candidates_of ?rels t)))"
    by (rule sum_list_by_key [OF d fin sub]) simp
  finally have high: "length (filter (\<lambda>c. confidence c \<ge> 0.8) (concat (map snd ?rels))) =
      (\<Sum>t\<in>?T. length (filter (\<lambda>c. confidence c \<ge> 0.8) (candidates_of ?rels t)))" .
  have "length (filter (\<lambda>c. confidence c \<ge> 0.8) (concat (map snd ?rels)))
          \<le> length (concat (map snd ?rels))"
    by (rule length_filter_le)
  also have "\<dots> = sum_list (map (\<lambda>kv. length (snd kv)) ?rels)"
    by (simp add: length_concat comp_def)
  finally have le: "length (filter (\<lambda>c. confidence c \<ge> 0.8) (concat (map snd ?rels)))
      \<le> sum_list (map (\<lambda>kv. length (snd kv)) ?rels)" .
  have keys: "fst ` set ?rels = {t. candidates_of ?rels t \<noteq> []}"
    using wf by (rule keys_nonempty)
  have "length ?rels = card (set (map fst ?rels))"
    using distinct_card [OF d] by simp
  then have tables: "length ?rels = card {t. candidates_of ?rels t \<noteq> []}"
    using keys by simp
  have inside: "{t. candidates_of ?rels t \<noteq> []} \<subseteq> ?T"
    using keys sub by simp
  show ?thesis
    unfolding relationships_analyze
    using wf total high le tables inside
    by (simp add: analyze_and_suggest_relationships_def Let_def)
qed

theorem statistics_consistent_witness:
  "stats (analyze_and_suggest_relationships (scenario_analyzer confirming_engine)) =
     \<lparr>total_implicit_relationships = 1, tables_with_implicit_relations = 1,
      high_confidence_relations = 1\<rparr>
   \<and> candidates_of (relationships (analyze_and_suggest_relationships
        (scenario_analyzer confirming_engine))) ''fato_vendas'' = [scenario_candidate 1]
   \<and> (\<Sum>t\<in>fst ` set (metadata (scenario_analyzer confirming_engine)).
         length (candidates_of (relationships (analyze_and_suggest_relationships
            (scenario_analyzer confirming_engine))) t)) = 1
   \<and> card {t. candidates_of (relationships (analyze_and_suggest_relationships
        (scenario_analyzer confirming_engine))) t \<noteq> []} = 1"
proof -
  let ?A = "scenario_analyzer confirming_engine"
  have ev: "stats (analyze_and_suggest_relationships ?A) =
     \<lparr>total_implicit_relationships = 1, tables_with_implicit_relations = 1,
      high_confidence_relations = 1\<rparr>"
    by (simp add: analyze_and_suggest_relationships_def Let_def scenario_report
          scenario_candidate_def)
  have c: "candidates_of (relationships (analyze_and_suggest_relationships ?A)) ''fato_vendas'' =
        [scenario_candidate 1]"
    by (simp add: relationships_analyze scenario_report candidates_of_Cons candidates_of_Nil)
  note t = statistics_consistent [of ?A]
  have "(\<Sum>t\<in>fst ` set (metadata ?A).
         length (candidates_of (relationships (analyze_and_suggest_relationships ?A)) t)) = 1"
    using t unfolding ev by simp
  moreover have "card {t. candidates_of (relationships (analyze_and_suggest_relationships ?A)) t \<noteq> []} = 1"
    using t unfolding ev by simp
  ultimately show ?thesis using ev c by blast
qed

text \<open>
  C10. The report's recommendations are the empty list, and the description of every
  candidate is its source table, a dot, its source column, an arrow, its target table
  and \<open>.id\<close>, the source column being the lower-cased name of a column of the source
  table.
\<close>

theorem report_descriptions:
  "recommendations (analyze_and_suggest_relationships self) = []
   \<and> (\<forall>src rels c.
         (src, rels) \<in> set (relationships (analyze_and_suggest_relationships self)) \<and> c \<in> set rels
         \<longrightarrow> suggested_relationship c =
               src @ ''.'' @ source_column c @ '' -> '' @ target_table c @ ''.id''
             \<and> (\<exists>cols col. (src, cols) \<in> set (metadata self) \<and> col \<in> set cols
                   \<and> source_column c = py_lower (name col)))"
proof -
  have "suggested_relationship c = src @ ''.'' @ source_column c @ '' -> '' @ target_table c @ ''.id''
        \<and> (\<exists>cols col. (src, cols) \<in> set (metadata self) \<and> col \<in> set cols
               \<and> source_column c = py_lower (name col))"
    if "(src, rels) \<in> set (find_implicit_relationships self)" "c \<in> set rels" for src rels c
  proof -
    from that obtain cols col tgt pat where
      h: "(src, cols) \<in> set (metadata self)" "col \<in> set cols" and
      c: "c = make_candidate self src tgt (py_lower (name col)) pat"
      by (elim find_entryE) blast
    have "source_column c = py_lower (name col)" by (simp add: c make_candidate_fields)
    then have "\<exists>cols col. (src, cols) \<in> set (metadata self) \<and> col \<in> set cols
               \<and> source_column c = py_lower (name col)"
      using h by blast
    then show ?thesis by (simp add: c make_candidate_fields)
  qed
  then show ?thesis
    unfolding relationships_analyze
    by (simp add: analyze_and_suggest_relationships_def Let_def) blast
qed

theorem report_descriptions_witness:
  "recommendations (analyze_and_suggest_relationships (scenario_analyzer confirming_engine)) = []
   \<and> (''fato_vendas'', [scenario_candidate 1])
       \<in> set (relationships (analyze_and_suggest_relationships (scenario_analyzer confirming_engine)))
   \<and> suggested_relationship (scenario_candidate 1) =
       ''fato_vendas'' @ ''.'' @ source_column (scenario_candidate 1) @ '' -> ''
         @ target_table (scenario_candidate 1) @ ''.id''
   \<and> suggested_relationship (scenario_candidate 1) = ''fato_vendas.id_cliente -> dim_cliente.id''"
  using report_descriptions [of "scenario_analyzer confirming_engine"]
  by (simp add: relationships_analyze scenario_report scenario_candidate_def)

end
